theory Spec2Isabelle
  imports Main "HOL-Library.Word"
begin

unbundle bit_operations_syntax

section \<open>The WPILOG parser: data model\<close>

text \<open>
  The class \<open>WPILogParser\<close> keeps a byte buffer (\<open>Uint8Array\<close>), a \<open>DataView\<close> over
  it that is \<open>null\<close> until the first fill, and a read cursor. The byte source is an
  asynchronous iterable of chunks. \<open>readToBuffer\<close> asks it for an iterator in every round
  and calls \<open>next()\<close> once; the iterators of a file stream or of a generator draw from the
  one source, so the rounds receive consecutive chunks, and an exhausted source answers
  \<open>{done: true, value: undefined}\<close>. The source is modelled as the list of chunks still to
  be yielded and is passed beside the parser state, since the source object is not owned
  by the parser.
\<close>

type_synonym byte = "8 word"
type_synonym bytes = "byte list"
type_synonym stream = "bytes list"

record parser =
  buffer :: bytes
  reader :: "bytes option"
  cursor :: nat

text \<open>
  Errors. \<open>TypeError\<close> and \<open>RangeError\<close> are raised by the runtime (a property read on
  \<open>undefined\<close> or \<open>null\<close>, a \<open>DataView\<close> access outside the view); the others are the
  \<open>throw new Error(...)\<close> statements of the source, carrying the values interpolated
  into the message.
\<close>

datatype error =
    TypeError
  | RangeError
  | InvalidVariableLength int
  | InvalidVersion int
  | InvalidMagic bytes
  | UnsupportedVersion int int

record Header =
  version :: int
  extra :: string

datatype ControlRecordPayload =
    StartControlRecordPayload int string string string
  | FinishControlRecordPayload int
  | SetMetadataControlRecordPayload int string

datatype ControlRecord = ControlRecord int int ControlRecordPayload

text \<open>
  The body of \<open>parseRecord\<close> ends without a \<open>return\<close>. The model returns its locals as
  they stand there, so that the framing can be stated.
\<close>

record framed =
  entryId :: int
  payloadSize :: int
  timestamp :: int
  payloadBytes :: bytes
  record_val :: "ControlRecord option"

definition new_parser :: parser where
  "new_parser = \<lparr>buffer = [], reader = None, cursor = 0\<rparr>"

section \<open>JavaScript's 32-bit operators\<close>

text \<open>
  \<open>&\<close>, \<open>|\<close>, \<open><<\<close> and \<open>>>\<close> convert their operands to signed 32-bit integers, and the
  shift count is taken modulo 32. All numbers here are integers.
\<close>

definition toInt32 :: "int \<Rightarrow> int" where
  "toInt32 x = signed_take_bit 31 x"

definition js_and :: "int \<Rightarrow> int \<Rightarrow> int" where
  "js_and a b = toInt32 a AND toInt32 b"

definition js_or :: "int \<Rightarrow> int \<Rightarrow> int" where
  "js_or a b = toInt32 a OR toInt32 b"

definition js_shl :: "int \<Rightarrow> nat \<Rightarrow> int" where
  "js_shl a k = toInt32 (push_bit (k mod 32) (toInt32 a))"

definition js_shr :: "int \<Rightarrow> nat \<Rightarrow> int" where
  "js_shr a k = drop_bit (k mod 32) (toInt32 a)"

section \<open>The buffer\<close>

definition concatUint8Arrays :: "bytes \<Rightarrow> bytes \<Rightarrow> bytes" where
  "concatUint8Arrays a b = a @ b"

text \<open>
  \<open>readToBuffer(length)\<close> runs its loop body \<open>length\<close> times; each round pulls one chunk
  and appends it. The source tests nothing on the pulled result: at an exhausted source
  the chunk is \<open>undefined\<close>, and either \<open>concatUint8Arrays\<close> reads \<open>b.length\<close> of it or
  the \<open>DataView\<close> constructor reads \<open>this.buffer.buffer\<close> of it, a \<open>TypeError\<close> both ways.
\<close>

fun readToBuffer :: "nat \<Rightarrow> stream \<times> parser \<Rightarrow> error + (stream \<times> parser)" where
  "readToBuffer 0 (st, s) = Inr (st, s)"
| "readToBuffer (Suc n) (st, s) =
     (case st of
        [] \<Rightarrow> Inl TypeError
      | chunk # rest \<Rightarrow>
          (let b = (if length (buffer s) > 0 then concatUint8Arrays (buffer s) chunk else chunk)
           in readToBuffer n (rest, s\<lparr>buffer := b, reader := Some b\<rparr>)))"

definition sliceBuffer :: "nat \<Rightarrow> parser \<Rightarrow> parser" where
  "sliceBuffer len s =
     (if len \<le> 0 then s
      else (let b = (if len \<ge> length (buffer s) then [] else drop len (buffer s))
            in s\<lparr>buffer := b, cursor := 0, reader := Some b\<rparr>))"

text \<open>\<open>subarray(start, end)\<close> clamps both ends to the array, as \<open>take\<close> and \<open>drop\<close> do.\<close>

definition readBytes :: "nat \<Rightarrow> parser \<Rightarrow> bytes \<times> parser" where
  "readBytes len s =
     (let start = cursor s; s' = s\<lparr>cursor := cursor s + len\<rparr>
      in (take (cursor s' - start) (drop start (buffer s)), s'))"

section \<open>Primitive decoding\<close>

text \<open>
  The \<open>DataView\<close> getters raise \<open>RangeError\<close> when the access does not fit in the view;
  \<open>this.reader!\<close> on a \<open>null\<close> reader raises \<open>TypeError\<close>. All reads are little-endian.
\<close>

definition readU8 :: "parser \<Rightarrow> error + (int \<times> parser)" where
  "readU8 s =
     (case reader s of
        None \<Rightarrow> Inl TypeError
      | Some v \<Rightarrow>
          if cursor s + 1 \<le> length v
          then Inr (uint (v ! cursor s), s\<lparr>cursor := cursor s + 1\<rparr>)
          else Inl RangeError)"

definition readU16 :: "parser \<Rightarrow> error + (int \<times> parser)" where
  "readU16 s =
     (case reader s of
        None \<Rightarrow> Inl TypeError
      | Some v \<Rightarrow>
          if cursor s + 2 \<le> length v
          then Inr (uint (v ! cursor s) + 256 * uint (v ! (cursor s + 1)),
                    s\<lparr>cursor := cursor s + 2\<rparr>)
          else Inl RangeError)"

definition readU32 :: "parser \<Rightarrow> error + (int \<times> parser)" where
  "readU32 s =
     (case reader s of
        None \<Rightarrow> Inl TypeError
      | Some v \<Rightarrow>
          if cursor s + 4 \<le> length v
          then Inr (uint (v ! cursor s) + 256 * uint (v ! (cursor s + 1))
                      + 65536 * uint (v ! (cursor s + 2))
                      + 16777216 * uint (v ! (cursor s + 3)),
                    s\<lparr>cursor := cursor s + 4\<rparr>)
          else Inl RangeError)"

definition readVariableLength :: "int \<Rightarrow> parser \<Rightarrow> error + (int \<times> parser)" where
  "readVariableLength numBytes s =
     (if numBytes = 1 then readU8 s
      else if numBytes = 2 then readU16 s
      else if numBytes = 3 then
        (case readU8 s of Inl e \<Rightarrow> Inl e | Inr (b1, s1) \<Rightarrow>
         (case readU8 s1 of Inl e \<Rightarrow> Inl e | Inr (b2, s2) \<Rightarrow>
          (case readU8 s2 of Inl e \<Rightarrow> Inl e | Inr (b3, s3) \<Rightarrow>
             Inr (js_or (js_or b1 (js_shl b2 8)) (js_shl b3 16), s3))))
      else if numBytes = 4 then readU32 s
      else Inl (InvalidVariableLength numBytes))"

text \<open>
  The loop of \<open>readVariableLengthBigInt\<close>, with the rounds still to run, \<open>value\<close> and
  \<open>shift\<close> as arguments. \<open>BigInt\<close> arithmetic is unbounded.
\<close>

fun bigIntLoop :: "nat \<Rightarrow> int \<Rightarrow> nat \<Rightarrow> parser \<Rightarrow> error + (int \<times> parser)" where
  "bigIntLoop 0 val shift s = Inr (val, s)"
| "bigIntLoop (Suc n) val shift s =
     (case readU8 s of
        Inl e \<Rightarrow> Inl e
      | Inr (b, s1) \<Rightarrow> bigIntLoop n (val OR push_bit shift b) (shift + 8) s1)"

definition readVariableLengthBigInt :: "nat \<Rightarrow> parser \<Rightarrow> error + (int \<times> parser)" where
  "readVariableLengthBigInt numBytes s = bigIntLoop numBytes 0 0 s"

section \<open>Header\<close>

definition parseVersion :: "int \<Rightarrow> error + (int \<times> int)" where
  "parseVersion bs =
     (let major = js_shr bs 8; minor = js_and bs 255
      in if major > 255 \<or> minor > 255 then Inl (InvalidVersion bs)
         else Inr (major, minor))"

text \<open>
  \<open>String.fromCharCode(...magicBytes) !== "WPILOG"\<close> compares a string whose code units
  are the bytes read with the six ASCII codes below; the model compares the bytes.
\<close>

definition WPILOG :: bytes where
  "WPILOG = [0x57, 0x50, 0x49, 0x4C, 0x4F, 0x47]"

definition fromCharCode :: "bytes \<Rightarrow> string" where
  "fromCharCode bs = map (\<lambda>b. char_of (unat b)) bs"

text \<open>
  \<open>decode\<close> stands for the module-level text decoder (\<open>td.decode\<close>, or
  \<open>String.fromCharCode\<close> where no \<open>TextDecoder\<close> exists).
\<close>

definition parseHeader ::
  "(bytes \<Rightarrow> string) \<Rightarrow> stream \<times> parser \<Rightarrow> error + (Header \<times> stream \<times> parser)" where
  "parseHeader decode p =
     (case readToBuffer (6 + 2 + 4) p of Inl e \<Rightarrow> Inl e | Inr (st1, s1) \<Rightarrow>
      (let (magicBytes, s2) = readBytes 6 s1 in
       if magicBytes \<noteq> WPILOG then Inl (InvalidMagic magicBytes)
       else
        (case readU16 s2 of Inl e \<Rightarrow> Inl e | Inr (ver, s3) \<Rightarrow>
         if ver \<noteq> 0x0100 then
           (case parseVersion ver of Inl e \<Rightarrow> Inl e
            | Inr (major, minor) \<Rightarrow> Inl (UnsupportedVersion major minor))
         else
          (case readU32 s3 of Inl e \<Rightarrow> Inl e | Inr (extraLength, s4) \<Rightarrow>
           if extraLength > 0 then
             (case readToBuffer (nat extraLength) (st1, s4) of Inl e \<Rightarrow> Inl e
              | Inr (st2, s5) \<Rightarrow>
                 (let (extraBytes, s6) = readBytes (nat extraLength) s5
                  in Inr (\<lparr>version = ver, extra = decode extraBytes\<rparr>, st2, s6)))
           else Inr (\<lparr>version = ver, extra = []\<rparr>, st1, sliceBuffer (cursor s4) s4)))))"

section \<open>Records\<close>

text \<open>The body of \<open>parseControlRecord\<close> is empty: it returns \<open>undefined\<close> on every input.\<close>

definition parseControlRecord :: "bytes \<Rightarrow> int \<Rightarrow> int \<Rightarrow> error + ControlRecord option" where
  "parseControlRecord payload eid ts = Inr None"

text \<open>
  \<open>parseRecord\<close> calls \<open>readToBuffer\<close> three times without \<open>await\<close>. An \<open>async\<close> function
  runs synchronously only up to its first \<open>await\<close>, which in \<open>readToBuffer\<close> comes before
  every assignment to the buffer; so no statement of \<open>parseRecord\<close> up to its own
  \<open>await\<close> sees a change of buffer, reader or cursor made by these calls, and the model
  passes the state by them unchanged. The state it returns is the one at the end of these
  statements.

  \<open>bitField[0]\<close> is \<open>undefined\<close> when the view is empty, and \<open>&\<close> and \<open>>>\<close> read
  \<open>undefined\<close> as 0. The cursor is advanced by \<open>readBytes(1)\<close> and once more by
  \<open>this.cursor += 1\<close>.
\<close>

definition parseRecord :: "parser \<Rightarrow> error + (framed \<times> parser)" where
  "parseRecord s =
     (let (bitField, s1) = readBytes 1 s;
          bitField0 = (case bitField of [] \<Rightarrow> 0 | b # _ \<Rightarrow> uint b);
          entryIdLength = js_and bitField0 3;
          payloadSizeLength = js_and (js_shr bitField0 2) 3;
          timestampLength = js_and (js_shr bitField0 4) 7;
          s2 = s1\<lparr>cursor := cursor s1 + 1\<rparr>
      in
       (case readVariableLength entryIdLength s2 of Inl e \<Rightarrow> Inl e | Inr (eid, s3) \<Rightarrow>
        (case readVariableLength payloadSizeLength s3 of Inl e \<Rightarrow> Inl e | Inr (psize, s4) \<Rightarrow>
         (case readVariableLengthBigInt (nat timestampLength) s4 of Inl e \<Rightarrow> Inl e
          | Inr (ts, s5) \<Rightarrow>
            (let (pbytes, s6) = readBytes (nat psize) s5 in
             if eid = 0 then
               (case parseControlRecord pbytes eid ts of Inl e \<Rightarrow> Inl e
                | Inr r \<Rightarrow>
                   Inr (\<lparr>entryId = eid, payloadSize = psize, timestamp = ts,
                         payloadBytes = pbytes, record_val = r\<rparr>, s6))
             else
               Inr (\<lparr>entryId = eid, payloadSize = psize, timestamp = ts,
                     payloadBytes = pbytes, record_val = None\<rparr>, s6))))))"

section \<open>Little-endian values\<close>

text \<open>The unsigned integer a byte sequence encodes, least significant byte first.\<close>

fun le_value :: "bytes \<Rightarrow> int" where
  "le_value [] = 0"
| "le_value (b # bs) = uint b + 256 * le_value bs"

section \<open>Auxiliary definitions for the statements\<close>

text \<open>A byte source that yields its bytes one per chunk.\<close>

definition bytewise :: "bytes \<Rightarrow> stream" where
  "bytewise bs = map (\<lambda>b. [b]) bs"

text \<open>
  The value \<open>parseRecord\<close> computes with as \<open>bitField[0]\<close>: the byte at the cursor, or 0
  when the cursor is outside the buffer.
\<close>

definition bitFieldByte :: "parser \<Rightarrow> int" where
  "bitFieldByte s = (case take 1 (drop (cursor s) (buffer s)) of [] \<Rightarrow> 0 | b # _ \<Rightarrow> uint b)"

section \<open>Facts about the 32-bit operators\<close>

lemma toInt32_id: "0 \<le> x \<Longrightarrow> x < 2147483648 \<Longrightarrow> toInt32 x = x"
  by (simp add: toInt32_def signed_take_bit_int_eq_self)

lemma and_low_bits: "(x::int) AND (2 ^ n - 1) = x mod 2 ^ n"
  by (simp add: take_bit_eq_mask mask_eq_exp_minus_1 flip: take_bit_eq_mod)

lemma js_and_3: "0 \<le> x \<Longrightarrow> x < 2147483648 \<Longrightarrow> js_and x 3 = x mod 4"
  using and_low_bits[of x 2] by (simp add: js_and_def toInt32_id)

lemma js_and_7: "0 \<le> x \<Longrightarrow> x < 2147483648 \<Longrightarrow> js_and x 7 = x mod 8"
  using and_low_bits[of x 3] by (simp add: js_and_def toInt32_id)

lemma js_and_255: "0 \<le> x \<Longrightarrow> x < 2147483648 \<Longrightarrow> js_and x 255 = x mod 256"
  using and_low_bits[of x 8] by (simp add: js_and_def toInt32_id)

lemma js_shr_div:
  "0 \<le> x \<Longrightarrow> x < 2147483648 \<Longrightarrow> k < 32 \<Longrightarrow> js_shr x k = x div 2 ^ k"
  by (simp add: js_shr_def toInt32_id drop_bit_eq_div)

lemma or_push_bit_add:
  "0 \<le> a \<Longrightarrow> a < 2 ^ n \<Longrightarrow> a OR push_bit n b = a + push_bit n (b::int)"
  using concat_bit_eq[of n a b] by (simp add: concat_bit_def take_bit_int_eq_self)

lemma or_mult_add:
  "0 \<le> a \<Longrightarrow> a < 2 ^ n \<Longrightarrow> a OR (2 ^ n * b) = a + 2 ^ n * (b::int)"
  using or_push_bit_add[of a n b] by (simp add: push_bit_eq_mult mult.commute)

lemma uint_byte_bounds: "0 \<le> uint (b::byte) \<and> uint b < 256"
  using uint_lt2p[of b] by simp

text \<open>The three-byte case of \<open>readVariableLength\<close>: no operand reaches bit 31.\<close>

lemma three_bytes:
  "js_or (js_or (uint (a::byte)) (js_shl (uint (b::byte)) 8)) (js_shl (uint (c::byte)) 16)
    = uint a + 256 * uint b + 65536 * uint c"
proof -
  have a: "0 \<le> uint a" "uint a < 256" and b: "0 \<le> uint b" "uint b < 256"
    and c: "0 \<le> uint c" "uint c < 256"
    using uint_byte_bounds by auto
  have sb: "js_shl (uint b) 8 = 256 * uint b"
    using b by (simp add: js_shl_def toInt32_id push_bit_eq_mult)
  have sc: "js_shl (uint c) 16 = 65536 * uint c"
    using c by (simp add: js_shl_def toInt32_id push_bit_eq_mult)
  have ab: "js_or (uint a) (256 * uint b) = uint a + 256 * uint b"
    using a b or_mult_add[of "uint a" 8 "uint b"] by (simp add: js_or_def toInt32_id)
  have "js_or (uint a + 256 * uint b) (65536 * uint c) = uint a + 256 * uint b + 65536 * uint c"
    using a b c or_mult_add[of "uint a + 256 * uint b" 16 "uint c"]
    by (simp add: js_or_def toInt32_id)
  then show ?thesis by (simp add: sb sc ab)
qed

section \<open>Facts about the decoders\<close>

lemma le_value_bounds: "0 \<le> le_value bs \<and> le_value bs < 256 ^ length bs"
proof (induction bs)
  case Nil
  show ?case by simp
next
  case (Cons b bs)
  have "uint b + 256 * le_value bs \<le> 255 + 256 * (256 ^ length bs - 1)"
    using Cons uint_byte_bounds[of b] by simp
  then show ?case using Cons uint_byte_bounds[of b] by simp
qed

lemma le_value_take_Suc:
  "c < length v \<Longrightarrow>
     le_value (take (Suc n) (drop c v)) = uint (v ! c) + 256 * le_value (take n (drop (Suc c) v))"
  by (simp add: Cons_nth_drop_Suc[symmetric])

lemma readU8_eq:
  "reader s = Some v \<Longrightarrow> readU8 s =
     (if cursor s + 1 \<le> length v
      then Inr (le_value (take 1 (drop (cursor s) v)), s\<lparr>cursor := cursor s + 1\<rparr>)
      else Inl RangeError)"
  by (simp add: readU8_def le_value_take_Suc)

lemma readU16_eq:
  "reader s = Some v \<Longrightarrow> readU16 s =
     (if cursor s + 2 \<le> length v
      then Inr (le_value (take 2 (drop (cursor s) v)), s\<lparr>cursor := cursor s + 2\<rparr>)
      else Inl RangeError)"
  by (simp add: readU16_def le_value_take_Suc eval_nat_numeral)

lemma readU32_eq:
  "reader s = Some v \<Longrightarrow> readU32 s =
     (if cursor s + 4 \<le> length v
      then Inr (le_value (take 4 (drop (cursor s) v)), s\<lparr>cursor := cursor s + 4\<rparr>)
      else Inl RangeError)"
  by (simp add: readU32_def le_value_take_Suc eval_nat_numeral)

lemma readVariableLength_3:
  "reader s = Some v \<Longrightarrow> readVariableLength 3 s =
     (if cursor s + 3 \<le> length v
      then Inr (le_value (take 3 (drop (cursor s) v)), s\<lparr>cursor := cursor s + 3\<rparr>)
      else Inl RangeError)"
proof (cases "cursor s + 3 \<le> length v")
  case True
  have "le_value (take (Suc (Suc (Suc 0))) (drop (cursor s) v))
          = uint (v ! cursor s) + 256 * uint (v ! (cursor s + 1)) + 65536 * uint (v ! (cursor s + 2))"
    using True by (simp add: le_value_take_Suc)
  then have "le_value (take 3 (drop (cursor s) v))
          = uint (v ! cursor s) + 256 * uint (v ! (cursor s + 1)) + 65536 * uint (v ! (cursor s + 2))"
    by (simp add: numeral_3_eq_3)
  moreover assume "reader s = Some v"
  ultimately show ?thesis using True
    by (simp add: readVariableLength_def readU8_def three_bytes)
next
  case False
  moreover assume "reader s = Some v"
  ultimately show ?thesis
    by (auto simp add: readVariableLength_def readU8_def)
qed

lemma readVariableLength_eq:
  "reader s = Some v \<Longrightarrow> n \<in> {1, 2, 3, 4} \<Longrightarrow> readVariableLength (int n) s =
     (if cursor s + n \<le> length v
      then Inr (le_value (take n (drop (cursor s) v)), s\<lparr>cursor := cursor s + n\<rparr>)
      else Inl RangeError)"
  using readVariableLength_3[of s v] readU8_eq[of s v] readU16_eq[of s v] readU32_eq[of s v]
  by (auto simp add: readVariableLength_def)

lemma bigIntLoop_eq:
  "reader s = Some v \<Longrightarrow> 0 \<le> val \<Longrightarrow> val < 2 ^ shift \<Longrightarrow>
   bigIntLoop n val shift s =
     (if n = 0 \<or> cursor s + n \<le> length v
      then Inr (val + 2 ^ shift * le_value (take n (drop (cursor s) v)),
                s\<lparr>cursor := cursor s + n\<rparr>)
      else Inl RangeError)"
proof (induction n arbitrary: val shift s)
  case 0
  then show ?case by simp
next
  case (Suc n)
  show ?case
  proof (cases "cursor s < length v")
    case False
    then show ?thesis using Suc.prems by (simp add: readU8_def)
  next
    case True
    let ?b = "uint (v ! cursor s)"
    let ?s1 = "s\<lparr>cursor := cursor s + 1\<rparr>"
    have r: "readU8 s = Inr (?b, ?s1)" using True Suc.prems by (simp add: readU8_def)
    have b: "0 \<le> ?b" "?b < 256" using uint_byte_bounds by auto
    have o: "val OR push_bit shift ?b = val + 2 ^ shift * ?b"
      using or_mult_add[of val shift ?b] Suc.prems by (simp add: push_bit_eq_mult mult.commute)
    have m: "(2::int) ^ shift * ?b \<le> 2 ^ shift * 255"
      using b by (intro mult_left_mono) auto
    have "(2::int) ^ (shift + 8) = 2 ^ shift * 255 + 2 ^ shift"
      by (simp add: power_add)
    then have lt: "val + 2 ^ shift * ?b < 2 ^ (shift + 8)"
      using m Suc.prems(3) by linarith
    have ge: "0 \<le> val + 2 ^ shift * ?b" using Suc.prems b by simp
    have "bigIntLoop (Suc n) val shift s = bigIntLoop n (val + 2 ^ shift * ?b) (shift + 8) ?s1"
      by (simp add: r o)
    also have "\<dots> = (if n = 0 \<or> cursor ?s1 + n \<le> length v
      then Inr (val + 2 ^ shift * ?b + 2 ^ (shift + 8) * le_value (take n (drop (cursor ?s1) v)),
                ?s1\<lparr>cursor := cursor ?s1 + n\<rparr>)
      else Inl RangeError)"
      using Suc.IH[of ?s1 "val + 2 ^ shift * ?b" "shift + 8"] Suc.prems ge lt by simp
    finally show ?thesis using True
      by (simp add: le_value_take_Suc power_add algebra_simps)
  qed
qed

lemma readVariableLengthBigInt_eq:
  "reader s = Some v \<Longrightarrow> readVariableLengthBigInt n s =
     (if n = 0 \<or> cursor s + n \<le> length v
      then Inr (le_value (take n (drop (cursor s) v)), s\<lparr>cursor := cursor s + n\<rparr>)
      else Inl RangeError)"
  using bigIntLoop_eq[of s v 0 0 n] by (simp add: readVariableLengthBigInt_def)

section \<open>Facts about the buffer and the header\<close>

text \<open>
  \<open>readToBuffer n\<close> succeeds exactly when \<open>n\<close> chunks are left, and then appends the
  first \<open>n\<close> of them to the buffer; the cursor is not touched.
\<close>

lemma readToBuffer_eq:
  "readToBuffer n (st, s) =
     (if n \<le> length st
      then Inr (drop n st,
                if n = 0 then s
                else s\<lparr>buffer := buffer s @ concat (take n st),
                       reader := Some (buffer s @ concat (take n st))\<rparr>)
      else Inl TypeError)"
proof (induction n arbitrary: st s)
  case 0
  show ?case by simp
next
  case (Suc n)
  show ?case
  proof (cases st)
    case Nil
    then show ?thesis by simp
  next
    case (Cons chunk rest)
    have b: "(if length (buffer s) > 0 then concatUint8Arrays (buffer s) chunk else chunk)
               = buffer s @ chunk"
      by (simp add: concatUint8Arrays_def)
    show ?thesis
      using Suc.IH[of rest "s\<lparr>buffer := buffer s @ chunk, reader := Some (buffer s @ chunk)\<rparr>"]
      by (simp add: Cons b Let_def del: length_greater_0_conv)
  qed
qed

lemma readToBuffer_new:
  "n \<le> length st \<Longrightarrow> 0 < n \<Longrightarrow>
     readToBuffer n (st, new_parser)
       = Inr (drop n st, \<lparr>buffer = concat (take n st), reader = Some (concat (take n st)), cursor = 0\<rparr>)"
  by (simp add: readToBuffer_eq new_parser_def)


lemma length_concat_nonempty:
  "\<forall>c \<in> set xs. c \<noteq> [] \<Longrightarrow> length xs \<le> length (concat xs)"
proof (induction xs)
  case Nil
  show ?case by simp
next
  case (Cons c cs)
  then have "1 \<le> length c" by (cases c) auto
  then show ?case using Cons by simp
qed

lemma parseHeader_new:
  assumes "12 \<le> length st"
  shows "parseHeader d (st, new_parser) =
     (let b = concat (take 12 st);
          s1 = \<lparr>buffer = b, reader = Some b, cursor = 0\<rparr>;
          (magicBytes, s2) = readBytes 6 s1 in
       if magicBytes \<noteq> WPILOG then Inl (InvalidMagic magicBytes)
       else
        (case readU16 s2 of Inl e \<Rightarrow> Inl e | Inr (ver, s3) \<Rightarrow>
         if ver \<noteq> 0x0100 then
           (case parseVersion ver of Inl e \<Rightarrow> Inl e
            | Inr (major, minor) \<Rightarrow> Inl (UnsupportedVersion major minor))
         else
          (case readU32 s3 of Inl e \<Rightarrow> Inl e | Inr (extraLength, s4) \<Rightarrow>
           if extraLength > 0 then
             (case readToBuffer (nat extraLength) (drop 12 st, s4) of Inl e \<Rightarrow> Inl e
              | Inr (st2, s5) \<Rightarrow>
                 (let (extraBytes, s6) = readBytes (nat extraLength) s5
                  in Inr (\<lparr>version = ver, extra = d extraBytes\<rparr>, st2, s6)))
           else Inr (\<lparr>version = ver, extra = []\<rparr>, drop 12 st, sliceBuffer (cursor s4) s4))))"
  using readToBuffer_new[OF assms] by (simp add: parseHeader_def Let_def)

lemma readToBuffer_error: "readToBuffer n p = Inl e \<Longrightarrow> e = TypeError"
  by (cases p) (simp add: readToBuffer_eq split: if_splits)

lemma readU16_error: "readU16 s = Inl e \<Longrightarrow> e = TypeError \<or> e = RangeError"
  by (auto simp add: readU16_def split: option.splits if_splits)

lemma readU32_error: "readU32 s = Inl e \<Longrightarrow> e = TypeError \<or> e = RangeError"
  by (auto simp add: readU32_def split: option.splits if_splits)

lemma parseVersion_error: "parseVersion v = Inl e \<Longrightarrow> e = InvalidVersion v"
  by (auto simp add: parseVersion_def Let_def split: if_splits)

section \<open>Facts about record framing\<close>

lemma bitfield_widths:
  assumes "0 \<le> bf" and "bf < 256"
  shows "js_and bf 3 = bf mod 4"
    and "js_and (js_shr bf 2) 3 = (bf div 4) mod 4"
    and "js_and (js_shr bf 4) 7 = (bf div 16) mod 8"
proof -
  show "js_and bf 3 = bf mod 4" using assms by (simp add: js_and_3)
  have "js_shr bf 2 = bf div 4" using assms by (simp add: js_shr_div)
  moreover have "0 \<le> bf div 4" "bf div 4 < 2147483648" using assms by auto
  ultimately show "js_and (js_shr bf 2) 3 = (bf div 4) mod 4" by (simp add: js_and_3)
  have "js_shr bf 4 = bf div 16" using assms by (simp add: js_shr_div)
  moreover have "0 \<le> bf div 16" "bf div 16 < 2147483648" using assms by auto
  ultimately show "js_and (js_shr bf 4) 7 = (bf div 16) mod 8" by (simp add: js_and_7)
qed

lemma bitFieldByte_bounds: "0 \<le> bitFieldByte s \<and> bitFieldByte s < 256"
  using uint_byte_bounds by (auto simp add: bitFieldByte_def split: list.splits)

lemma bitFieldByte_nth:
  "cursor s < length (buffer s) \<Longrightarrow> bitFieldByte s = uint (buffer s ! cursor s)"
  by (simp add: bitFieldByte_def Cons_nth_drop_Suc[symmetric])

lemma bitFieldByte_outside:
  "\<not> cursor s < length (buffer s) \<Longrightarrow> bitFieldByte s = 0"
  by (simp add: bitFieldByte_def)

lemma readBytes_eq:
  "readBytes n s = (take n (drop (cursor s) (buffer s)), s\<lparr>cursor := cursor s + n\<rparr>)"
  by (simp add: readBytes_def Let_def)

text \<open>
  \<open>parseRecord\<close> in terms of the bit-field byte: its three widths are \<open>b mod 4\<close>,
  \<open>b div 4 mod 4\<close> and \<open>b div 16 mod 8\<close>, the fields are read from two bytes behind the
  cursor on, and the empty \<open>parseControlRecord\<close> leaves both branches of the test on the
  entry id alike.
\<close>

lemma parseRecord_unfold:
  "parseRecord s =
     (let s2 = s\<lparr>cursor := cursor s + 2\<rparr> in
       (case readVariableLength (bitFieldByte s mod 4) s2 of Inl e \<Rightarrow> Inl e
        | Inr (eid, s3) \<Rightarrow>
        (case readVariableLength ((bitFieldByte s div 4) mod 4) s3 of Inl e \<Rightarrow> Inl e
         | Inr (psize, s4) \<Rightarrow>
         (case readVariableLengthBigInt (nat ((bitFieldByte s div 16) mod 8)) s4 of Inl e \<Rightarrow> Inl e
          | Inr (ts, s5) \<Rightarrow>
             Inr (\<lparr>entryId = eid, payloadSize = psize, timestamp = ts,
                   payloadBytes = take (nat psize) (drop (cursor s5) (buffer s5)),
                   record_val = None\<rparr>, s5\<lparr>cursor := cursor s5 + nat psize\<rparr>)))))"
proof -
  have bf: "(case take 1 (drop (cursor s) (buffer s)) of [] \<Rightarrow> 0 | b # _ \<Rightarrow> uint b) = bitFieldByte s"
    by (simp add: bitFieldByte_def)
  have b: "0 \<le> bitFieldByte s" "bitFieldByte s < 256" using bitFieldByte_bounds by auto
  note w = bitfield_widths[OF b]
  show ?thesis
    unfolding parseRecord_def readBytes_eq Let_def prod.case bf w parseControlRecord_def
    by (simp split: sum.splits prod.splits)
qed


lemma readVariableLength_invalid:
  "numBytes \<notin> {1, 2, 3, 4} \<Longrightarrow> readVariableLength numBytes s = Inl (InvalidVariableLength numBytes)"
  by (simp add: readVariableLength_def)

lemma readVariableLength_Inr:
  assumes "readVariableLength w s = Inr (x, s1)" and "reader s = Some v"
  shows "w \<in> {1, 2, 3, 4} \<and> cursor s + nat w \<le> length v
       \<and> x = le_value (take (nat w) (drop (cursor s) v)) \<and> s1 = s\<lparr>cursor := cursor s + nat w\<rparr>"
proof -
  have w: "w \<in> {1, 2, 3, 4}"
    using assms(1) readVariableLength_invalid[of w s] by auto
  then have "nat w \<in> {1, 2, 3, 4}" "int (nat w) = w" by auto
  then show ?thesis
    using readVariableLength_eq[OF assms(2), of "nat w"] assms(1) w
    by (auto split: if_splits)
qed

lemma readVariableLengthBigInt_Inr:
  assumes "readVariableLengthBigInt n s = Inr (x, s1)" and "reader s = Some v"
  shows "(n = 0 \<or> cursor s + n \<le> length v)
       \<and> x = le_value (take n (drop (cursor s) v)) \<and> s1 = s\<lparr>cursor := cursor s + n\<rparr>"
  using readVariableLengthBigInt_eq[OF assms(2), of n] assms(1)
  by (auto split: if_splits)

lemma parseRecord_Inr:
  assumes ok: "parseRecord s = Inr (f, s')" and rd: "reader s = Some v"
    and eb: "eb = nat (bitFieldByte s mod 4)"
    and pb: "pb = nat ((bitFieldByte s div 4) mod 4)"
    and tb: "tb = nat ((bitFieldByte s div 16) mod 8)"
    and p: "p = cursor s + 2"
  shows "eb \<in> {1, 2, 3} \<and> pb \<in> {1, 2, 3} \<and> p + eb + pb + tb \<le> length v
       \<and> entryId f = le_value (take eb (drop p v))
       \<and> payloadSize f = le_value (take pb (drop (p + eb) v))
       \<and> timestamp f = le_value (take tb (drop (p + eb + pb) v))
       \<and> payloadBytes f = take (nat (payloadSize f)) (drop (p + eb + pb + tb) (buffer s))
       \<and> record_val f = None
       \<and> s' = s\<lparr>cursor := p + eb + pb + tb + nat (payloadSize f)\<rparr>"
proof -
  let ?s2 = "s\<lparr>cursor := cursor s + 2\<rparr>"
  have b: "0 \<le> bitFieldByte s" "bitFieldByte s < 256" using bitFieldByte_bounds by auto
  have m4: "bitFieldByte s mod 4 < 4" "0 \<le> bitFieldByte s mod 4" by auto
  have n4: "(bitFieldByte s div 4) mod 4 < 4" "0 \<le> (bitFieldByte s div 4) mod 4" by auto
  from ok obtain eid s3 where
    r1: "readVariableLength (bitFieldByte s mod 4) ?s2 = Inr (eid, s3)"
    by (auto simp add: parseRecord_unfold Let_def split: sum.splits)
  have rd2: "reader ?s2 = Some v" using rd by simp
  note i1 = readVariableLength_Inr[OF r1 rd2]
  have rd3: "reader s3 = Some v" using i1 rd by simp
  from ok r1 obtain psize s4 where
    r2: "readVariableLength ((bitFieldByte s div 4) mod 4) s3 = Inr (psize, s4)"
    by (auto simp add: parseRecord_unfold Let_def split: sum.splits)
  note i2 = readVariableLength_Inr[OF r2 rd3]
  have rd4: "reader s4 = Some v" using i2 rd3 by simp
  from ok r1 r2 obtain ts s5 where
    r3: "readVariableLengthBigInt (nat ((bitFieldByte s div 16) mod 8)) s4 = Inr (ts, s5)"
    by (auto simp add: parseRecord_unfold Let_def split: sum.splits)
  note i3 = readVariableLengthBigInt_Inr[OF r3 rd4]
  have res: "f = \<lparr>entryId = eid, payloadSize = psize, timestamp = ts,
                   payloadBytes = take (nat psize) (drop (cursor s5) (buffer s5)),
                   record_val = None\<rparr>"
       "s' = s5\<lparr>cursor := cursor s5 + nat psize\<rparr>"
    using ok r1 r2 r3 by (auto simp add: parseRecord_unfold Let_def)
  have w1: "bitFieldByte s mod 4 \<in> {1, 2, 3, 4}" using i1 by (rule conjunct1)
  have w2: "(bitFieldByte s div 4) mod 4 \<in> {1, 2, 3, 4}" using i2 by (rule conjunct1)
  have e: "eb \<in> {1, 2, 3}" using w1 m4 unfolding eb by auto
  have q: "pb \<in> {1, 2, 3}" using w2 n4 unfolding pb by auto
  have s3: "s3 = ?s2\<lparr>cursor := cursor ?s2 + eb\<rparr>" using i1 unfolding eb by blast
  have s4: "s4 = s3\<lparr>cursor := cursor s3 + pb\<rparr>" using i2 unfolding pb by blast
  have s5: "s5 = s4\<lparr>cursor := cursor s4 + tb\<rparr>" using i3 unfolding tb by blast
  have c3: "cursor s3 = p + eb" by (simp add: s3 p)
  have c4: "cursor s4 = p + eb + pb" by (simp add: s4 c3)
  have c5: "cursor s5 = p + eb + pb + tb" by (simp add: s5 c4)
  have f2: "cursor s3 + pb \<le> length v" using i2 unfolding pb by blast
  have f3: "tb = 0 \<or> cursor s4 + tb \<le> length v" using i3 unfolding tb by blast
  have fit: "p + eb + pb + tb \<le> length v"
    using f2 f3 c3 c4 by auto
  have bs: "buffer s5 = buffer s" by (simp add: s5 s4 s3)
  have v1: "eid = le_value (take eb (drop p v))" using i1 unfolding eb p by simp
  have v2: "psize = le_value (take pb (drop (p + eb) v))" using i2 unfolding pb c3 by blast
  have v3: "ts = le_value (take tb (drop (p + eb + pb) v))" using i3 unfolding tb c4 by blast
  have fin: "s5\<lparr>cursor := n\<rparr> = s\<lparr>cursor := n\<rparr>" for n
    by (simp add: s5 s4 s3)
  show ?thesis
    using e q fit by (simp add: res v1[symmetric] v2[symmetric] v3[symmetric] c5 bs fin)
qed


lemma readVariableLength_Inl:
  "readVariableLength w s = Inl e \<Longrightarrow>
     e = TypeError \<or> e = RangeError \<or> (e = InvalidVariableLength w \<and> w \<notin> {1, 2, 3, 4})"
  by (auto simp add: readVariableLength_def readU8_def readU16_def readU32_def
      split: if_splits option.splits sum.splits)

lemma readVariableLength_no_reader:
  "reader s = None \<Longrightarrow> readVariableLength w s \<noteq> Inr r"
  by (simp add: readVariableLength_def readU8_def readU16_def readU32_def)

lemma readVariableLength_needs_reader:
  "readVariableLength w s = Inr r \<Longrightarrow> reader s \<noteq> None"
  using readVariableLength_no_reader by blast

lemma parseRecord_needs_reader:
  assumes "parseRecord s = Inr r"
  shows "reader s \<noteq> None"
proof -
  from assms obtain x where
    "readVariableLength (bitFieldByte s mod 4) (s\<lparr>cursor := cursor s + 2\<rparr>) = Inr x"
    by (auto simp add: parseRecord_unfold Let_def split: sum.splits)
  then show ?thesis using readVariableLength_needs_reader by fastforce
qed

lemma parseRecord_entry_width_0:
  assumes "bitFieldByte s mod 4 = 0"
  shows "parseRecord s = Inl (InvalidVariableLength 0)"
  using assms by (simp add: parseRecord_unfold readVariableLength_invalid)

lemma parseRecord_payload_width_0:
  assumes "(bitFieldByte s div 4) mod 4 = 0"
  shows "parseRecord s = Inl (InvalidVariableLength 0) \<or> parseRecord s = Inl TypeError
       \<or> parseRecord s = Inl RangeError"
proof (cases "readVariableLength (bitFieldByte s mod 4) (s\<lparr>cursor := cursor s + 2\<rparr>)")
  case (Inl e)
  have "0 \<le> bitFieldByte s mod 4" "bitFieldByte s mod 4 < 4" by auto
  then have "bitFieldByte s mod 4 \<notin> {1, 2, 3, 4} \<Longrightarrow> bitFieldByte s mod 4 = 0" by auto
  then have "e = TypeError \<or> e = RangeError \<or> e = InvalidVariableLength 0"
    using readVariableLength_Inl[OF Inl] by auto
  moreover have "parseRecord s = Inl e" using Inl by (simp add: parseRecord_unfold)
  ultimately show ?thesis by auto
next
  case (Inr x)
  then show ?thesis using assms
    by (cases x) (simp add: parseRecord_unfold readVariableLength_invalid)
qed

lemma parseRecord_timestamp_width_0:
  assumes "parseRecord s = Inr (f, s')" and "(bitFieldByte s div 16) mod 8 = 0"
  shows "timestamp f = 0"
proof -
  obtain v where v: "reader s = Some v"
    using parseRecord_needs_reader[OF assms(1)] by auto
  show ?thesis
    using parseRecord_Inr[OF assms(1) v refl refl refl refl] assms(2) by simp
qed

text \<open>
  \<open>readVariableLength\<close> decodes the widths 1 to 4, but the two-bit selectors that
  \<open>parseRecord\<close> passes to it are at most 3: in every record it accepts, the entry-id and
  payload-size widths are 1, 2 or 3, and the case of 4 bytes is never taken.
\<close>

lemma parseRecord_widths_below_4:
  assumes "parseRecord s = Inr (f, s')"
  shows "bitFieldByte s mod 4 \<in> {1, 2, 3} \<and> (bitFieldByte s div 4) mod 4 \<in> {1, 2, 3}"
proof -
  obtain v where v: "reader s = Some v"
    using parseRecord_needs_reader[OF assms] by auto
  have "nat (bitFieldByte s mod 4) \<in> {1, 2, 3}"
    and "nat ((bitFieldByte s div 4) mod 4) \<in> {1, 2, 3}"
    using parseRecord_Inr[OF assms v refl refl refl refl] by blast+
  moreover have "0 \<le> bitFieldByte s mod 4" "0 \<le> (bitFieldByte s div 4) mod 4"
    by simp_all
  ultimately show ?thesis by (auto simp add: nat_eq_iff)
qed

text \<open>No path through \<open>parseRecord\<close> assigns the buffer.\<close>

lemma parseRecord_buffer:
  assumes "parseRecord s = Inr (f, s')"
  shows "buffer s' = buffer s"
proof -
  obtain v where v: "reader s = Some v"
    using parseRecord_needs_reader[OF assms] by auto
  show ?thesis
    using parseRecord_Inr[OF assms v refl refl refl refl] by simp
qed

text \<open>A round of \<open>readToBuffer\<close> at an exhausted source raises \<open>TypeError\<close>.\<close>

lemma readToBuffer_exhausted: "readToBuffer (Suc n) ([], s) = Inl TypeError"
  by simp

section \<open>Variable-width integers (C4)\<close>

text \<open>
  C4. For every width \<open>w\<close> in \<open>{1,2,3,4}\<close> and every sequence \<open>bs\<close> of \<open>w\<close> bytes lying
  at the cursor (after any bytes \<open>pre\<close>, before any bytes \<open>post\<close>),
  \<open>readVariableLength\<close> returns the little-endian unsigned integer that \<open>bs\<close> encodes and
  leaves the cursor behind \<open>bs\<close>; the three-byte case is \<open>b0 | b1<<8 | b2<<16\<close> with no
  sign extension. \<open>readVariableLengthBigInt\<close> returns the same value.
\<close>

theorem readVariableLength_little_endian:
  assumes "length bs = w" and "w \<in> {1, 2, 3, 4}"
    and "reader s = Some (pre @ bs @ post)" and "cursor s = length pre"
  shows "readVariableLength (int w) s = Inr (le_value bs, s\<lparr>cursor := length pre + w\<rparr>)
       \<and> readVariableLengthBigInt w s = Inr (le_value bs, s\<lparr>cursor := length pre + w\<rparr>)"
proof -
  have fit: "cursor s + w \<le> length (pre @ bs @ post)" using assms by simp
  have view: "take w (drop (cursor s) (pre @ bs @ post)) = bs" using assms by simp
  have "readVariableLength (int w) s = Inr (le_value bs, s\<lparr>cursor := length pre + w\<rparr>)"
    using readVariableLength_eq[OF assms(3) assms(2)] fit view assms(4) by simp
  moreover have "readVariableLengthBigInt w s = Inr (le_value bs, s\<lparr>cursor := length pre + w\<rparr>)"
    using readVariableLengthBigInt_eq[OF assms(3), of w] fit view assms(4) by simp
  ultimately show ?thesis by simp
qed

text \<open>The bytes \<open>[0x01, 0x02, 0x03]\<close> decode to \<open>0x030201\<close>.\<close>

theorem readVariableLength_little_endian_witness:
  "readVariableLength 3 \<lparr>buffer = [0x01, 0x02, 0x03], reader = Some [0x01, 0x02, 0x03], cursor = 0\<rparr>
     = Inr (0x030201, \<lparr>buffer = [0x01, 0x02, 0x03], reader = Some [0x01, 0x02, 0x03], cursor = 3\<rparr>)
   \<and> readVariableLengthBigInt 3 \<lparr>buffer = [0x01, 0x02, 0x03], reader = Some [0x01, 0x02, 0x03], cursor = 0\<rparr>
     = Inr (0x030201, \<lparr>buffer = [0x01, 0x02, 0x03], reader = Some [0x01, 0x02, 0x03], cursor = 3\<rparr>)"
  using readVariableLength_little_endian
    [of "[0x01, 0x02, 0x03]" 3
        "\<lparr>buffer = [0x01, 0x02, 0x03], reader = Some [0x01, 0x02, 0x03], cursor = 0\<rparr>" "[]" "[]"]
  by simp

section \<open>Version splitting (C9)\<close>

lemma parseVersion_u16:
  "0 \<le> v \<Longrightarrow> v < 65536 \<Longrightarrow> parseVersion v = Inr (v div 256, v mod 256)"
proof -
  assume a: "0 \<le> v" "v < 65536"
  have "v div 256 \<le> 255" using a by simp
  moreover have "v mod 256 \<le> 255" using pos_mod_bound[of 256 v] by simp
  ultimately show ?thesis using a
    by (simp add: parseVersion_def js_shr_div js_and_255)
qed

text \<open>
  C9. For every 16-bit unsigned value \<open>v\<close>, \<open>parseVersion\<close> returns the pair
  \<open>(v >> 8, v & 0xff)\<close>, that is the high and the low byte, and does not throw: the
  \<open>Invalid version\<close> branch is not reached below \<open>2^16\<close>.
\<close>

theorem parseVersion_total:
  "0 \<le> v \<Longrightarrow> v < 65536 \<Longrightarrow> parseVersion v = Inr (v div 256, v mod 256)"
  by (rule parseVersion_u16)

theorem parseVersion_total_witness:
  "(0::int) \<le> 0x0200 \<and> (0x0200::int) < 65536 \<and> parseVersion 0x0200 = Inr (2, 0)"
  using parseVersion_total[of "0x0200"] by simp

section \<open>Raw byte reads (C10)\<close>

text \<open>
  C10. \<open>readBytes(n)\<close> raises nothing (the model is a total function with no error
  result). When fewer than \<open>n\<close> bytes lie between the cursor and the end of the buffer, the
  view it returns is what is left of the buffer, shorter than \<open>n\<close>, and the cursor still
  moves by the full \<open>n\<close>.
\<close>

theorem readBytes_clamps:
  "length (buffer s) - cursor s < n \<Longrightarrow>
     fst (readBytes n s) = drop (cursor s) (buffer s)
     \<and> length (fst (readBytes n s)) < n
     \<and> snd (readBytes n s) = s\<lparr>cursor := cursor s + n\<rparr>"
  by (simp add: readBytes_def Let_def)

theorem readBytes_clamps_witness:
  "length (buffer \<lparr>buffer = [0x57, 0x50], reader = None, cursor = 1\<rparr>)
      - cursor \<lparr>buffer = [0x57, 0x50], reader = None, cursor = 1\<rparr> < 6
   \<and> readBytes 6 \<lparr>buffer = [0x57, 0x50], reader = None, cursor = 1\<rparr>
        = ([0x50], \<lparr>buffer = [0x57, 0x50], reader = None, cursor = 7\<rparr>)"
  using readBytes_clamps[of "\<lparr>buffer = [0x57, 0x50], reader = None, cursor = 1\<rparr>" 6]
  by (simp add: prod_eq_iff)

section \<open>The magic (C6)\<close>

text \<open>
  C6, as the code has it. \<open>parseHeader\<close> awaits the fill of the twelve header bytes before
  it compares the magic. For every input stream on which that fill returns with the twelve
  header bytes unread in the buffer: if the first six bytes of the stream are not
  \<open>WPILOG\<close>, header parsing fails with the error that carries those six bytes; if they
  are \<open>WPILOG\<close>, header parsing raises no magic error. Nothing is said of a stream on
  which the fill fails or returns with fewer bytes.
\<close>

theorem parseHeader_magic:
  assumes "readToBuffer 12 (st, new_parser) = Inr (st1, s1)"
    and "12 \<le> length (buffer s1) - cursor s1"
  shows "(take 6 (concat st) \<noteq> WPILOG \<longrightarrow>
            parseHeader d (st, new_parser) = Inl (InvalidMagic (take 6 (concat st))))
       \<and> (take 6 (concat st) = WPILOG \<longrightarrow>
            (\<forall>m. parseHeader d (st, new_parser) \<noteq> Inl (InvalidMagic m)))"
proof -
  have len: "12 \<le> length st"
    using assms(1) by (simp add: readToBuffer_eq split: if_splits)
  have s1: "s1 = \<lparr>buffer = concat (take 12 st), reader = Some (concat (take 12 st)), cursor = 0\<rparr>"
    using assms(1) readToBuffer_new[OF len] by simp
  have filled: "6 \<le> length (concat (take 12 st))"
    using assms(2) by (simp add: s1)
  have "concat st = concat (take 12 st) @ concat (drop 12 st)"
    by (metis append_take_drop_id concat_append)
  then have found: "take 6 (concat (take 12 st)) = take 6 (concat st)"
    using filled by simp
  show ?thesis
  proof (intro conjI impI)
    assume "take 6 (concat st) \<noteq> WPILOG"
    then show "parseHeader d (st, new_parser) = Inl (InvalidMagic (take 6 (concat st)))"
      using found by (simp add: parseHeader_new[OF len] readBytes_def Let_def)
  next
    assume "take 6 (concat st) = WPILOG"
    then show "\<forall>m. parseHeader d (st, new_parser) \<noteq> Inl (InvalidMagic m)"
      using found
      by (auto simp add: parseHeader_new[OF len] readBytes_def Let_def
          split: sum.splits prod.splits if_splits
          dest: readToBuffer_error readU16_error readU32_error parseVersion_error)
  qed
qed

theorem parseHeader_magic_witness:
  "parseHeader fromCharCode
      (bytewise [0x57, 0x50, 0x49, 0x4C, 0x4F, 0x58, 0x00, 0x01, 0, 0, 0, 0], new_parser)
     = Inl (InvalidMagic [0x57, 0x50, 0x49, 0x4C, 0x4F, 0x58])
   \<and> (\<forall>m. parseHeader fromCharCode (bytewise (WPILOG @ [0x00, 0x01, 0, 0, 0, 0]), new_parser)
          \<noteq> Inl (InvalidMagic m))"
proof -
  let ?X = "[0x57, 0x50, 0x49, 0x4C, 0x4F, 0x58, 0x00, 0x01, 0, 0, 0, 0] :: bytes"
  let ?G = "WPILOG @ [0x00, 0x01, 0, 0, 0, 0]"
  have fx: "readToBuffer 12 (bytewise ?X, new_parser)
              = Inr ([], \<lparr>buffer = ?X, reader = Some ?X, cursor = 0\<rparr>)"
    by code_simp
  have fg: "readToBuffer 12 (bytewise ?G, new_parser)
              = Inr ([], \<lparr>buffer = ?G, reader = Some ?G, cursor = 0\<rparr>)"
    by code_simp
  have lx: "12 \<le> length (buffer \<lparr>buffer = ?X, reader = Some ?X, cursor = 0\<rparr>)
                   - cursor \<lparr>buffer = ?X, reader = Some ?X, cursor = 0\<rparr>"
    by simp
  have lg: "12 \<le> length (buffer \<lparr>buffer = ?G, reader = Some ?G, cursor = 0\<rparr>)
                   - cursor \<lparr>buffer = ?G, reader = Some ?G, cursor = 0\<rparr>"
    by (simp add: WPILOG_def)
  show ?thesis
    using parseHeader_magic[OF fx lx, of fromCharCode]
      parseHeader_magic[OF fg lg, of fromCharCode]
    by (simp add: bytewise_def WPILOG_def)
qed

text \<open>
  C6 as stated, for every input stream, fails on a stream that ends before the header is
  complete: over the six one-byte chunks \<open>W P I L O X\<close> the first six bytes are not the
  magic, and header parsing fails in the fill, before any byte is compared, with an error
  that reports no bytes.
\<close>

theorem parseHeader_short_stream:
  "take 6 (concat (bytewise [0x57, 0x50, 0x49, 0x4C, 0x4F, 0x58])) \<noteq> WPILOG
   \<and> parseHeader fromCharCode (bytewise [0x57, 0x50, 0x49, 0x4C, 0x4F, 0x58], new_parser)
        = Inl TypeError"
  by code_simp

section \<open>The version (C2)\<close>

text \<open>
  C2, as the code has it. For a new parser over a source with at least twelve chunks whose
  fill \<open>b\<close> starts with the magic and holds the two version bytes, let \<open>v\<close> be the 16-bit
  little-endian value of \<open>b[6], b[7]\<close>. If \<open>v\<close> is not \<open>0x0100\<close>, header parsing fails with
  the error that reports major \<open>v >> 8\<close> and minor \<open>v & 0xff\<close>; the major is the second byte
  on the wire and the minor the first.
\<close>

theorem parseHeader_version:
  assumes "12 \<le> length st" and "b = concat (take 12 st)" and "take 6 b = WPILOG"
    and "8 \<le> length b" and "v = uint (b ! 6) + 256 * uint (b ! 7)" and "v \<noteq> 0x0100"
  shows "parseHeader d (st, new_parser) = Inl (UnsupportedVersion (v div 256) (v mod 256))
       \<and> v div 256 = uint (b ! 7) \<and> v mod 256 = uint (b ! 6)"
proof -
  have lo: "0 \<le> uint (b ! 6)" "uint (b ! 6) < 256" and hi: "0 \<le> uint (b ! 7)" "uint (b ! 7) < 256"
    using uint_byte_bounds by auto
  have v: "0 \<le> v" "v < 65536" using lo hi assms(5) by auto
  have r: "readU16 \<lparr>buffer = b, reader = Some b, cursor = 6\<rparr>
             = Inr (v, \<lparr>buffer = b, reader = Some b, cursor = 8\<rparr>)"
    using assms(4,5) by (simp add: readU16_def)
  have "parseHeader d (st, new_parser) = Inl (UnsupportedVersion (v div 256) (v mod 256))"
    using assms(2,3,6) r parseVersion_u16[OF v]
    by (simp add: parseHeader_new[OF assms(1)] readBytes_def Let_def)
  moreover have "v div 256 = uint (b ! 7)" "v mod 256 = uint (b ! 6)"
    using lo hi assms(5) by auto
  ultimately show ?thesis by simp
qed

text \<open>The version bytes \<open>0x00 0x02\<close> are reported as major 2, minor 0.\<close>

theorem parseHeader_version_witness:
  "parseHeader fromCharCode (bytewise (WPILOG @ [0x00, 0x02, 0, 0, 0, 0]), new_parser)
     = Inl (UnsupportedVersion 2 0)"
  using parseHeader_version
    [of "bytewise (WPILOG @ [0x00, 0x02, 0, 0, 0, 0])" "WPILOG @ [0x00, 0x02, 0, 0, 0, 0]"
        "0x0200" fromCharCode]
  by (simp add: bytewise_def WPILOG_def)

text \<open>
  C2 as stated says that the version bytes \<open>0x02 0x00\<close> are reported as major 2, minor 0.
  Read little-endian they are the value 2, and the error reports major 0, minor 2.
\<close>

theorem parseHeader_version_0200:
  "parseHeader fromCharCode (bytewise (WPILOG @ [0x02, 0x00, 0, 0, 0, 0]), new_parser)
     = Inl (UnsupportedVersion 0 2)
   \<and> parseHeader fromCharCode (bytewise (WPILOG @ [0x02, 0x00, 0, 0, 0, 0]), new_parser)
     \<noteq> Inl (UnsupportedVersion 2 0)"
  by code_simp

section \<open>Field widths of 0 (C7)\<close>

text \<open>
  C7. \<open>readVariableLength\<close> fails for every width outside \<open>{1,2,3,4}\<close>, and
  \<open>readVariableLengthBigInt\<close> returns 0 for width 0 without reading. In \<open>parseRecord\<close>,
  with \<open>bitFieldByte\<close> the bit-field byte: a record whose entry-id width (bits 0-1) is 0
  is rejected with the invalid-size error; a record whose payload-size width (bits 2-3) is
  0 is rejected, with that error once the entry id has been read and otherwise with the
  error of the failed read; and a record that parses with timestamp width (bits 4-6) 0 has
  timestamp 0.
\<close>

theorem zero_widths:
  "(numBytes \<notin> {1, 2, 3, 4} \<longrightarrow>
      readVariableLength numBytes s = Inl (InvalidVariableLength numBytes))
   \<and> readVariableLengthBigInt 0 s = Inr (0, s)
   \<and> (bitFieldByte r mod 4 = 0 \<longrightarrow> parseRecord r = Inl (InvalidVariableLength 0))
   \<and> ((bitFieldByte q div 4) mod 4 = 0 \<longrightarrow>
        parseRecord q = Inl (InvalidVariableLength 0) \<or> parseRecord q = Inl TypeError
        \<or> parseRecord q = Inl RangeError)
   \<and> (parseRecord t = Inr (f, t') \<and> (bitFieldByte t div 16) mod 8 = 0 \<longrightarrow> timestamp f = 0)"
  using readVariableLength_invalid[of numBytes s] parseRecord_entry_width_0[of r]
    parseRecord_payload_width_0[of q] parseRecord_timestamp_width_0[of t f t']
  by (simp add: readVariableLengthBigInt_def)

theorem zero_widths_witness:
  "readVariableLength 0 \<lparr>buffer = [0x07], reader = Some [0x07], cursor = 0\<rparr>
     = Inl (InvalidVariableLength 0)
   \<and> readVariableLengthBigInt 0 \<lparr>buffer = [0x07], reader = Some [0x07], cursor = 0\<rparr>
     = Inr (0, \<lparr>buffer = [0x07], reader = Some [0x07], cursor = 0\<rparr>)
   \<and> parseRecord \<lparr>buffer = [0x14, 0x00, 0x01, 0x00, 0x05],
                   reader = Some [0x14, 0x00, 0x01, 0x00, 0x05], cursor = 0\<rparr>
     = Inl (InvalidVariableLength 0)
   \<and> parseRecord \<lparr>buffer = [0x11, 0x00, 0x01, 0x00, 0x05],
                   reader = Some [0x11, 0x00, 0x01, 0x00, 0x05], cursor = 0\<rparr>
     = Inl (InvalidVariableLength 0)
   \<and> parseRecord \<lparr>buffer = [0x05, 0x00, 0x07, 0x00],
                   reader = Some [0x05, 0x00, 0x07, 0x00], cursor = 0\<rparr>
     = Inr (\<lparr>entryId = 7, payloadSize = 0, timestamp = 0, payloadBytes = [],
              record_val = None\<rparr>,
            \<lparr>buffer = [0x05, 0x00, 0x07, 0x00],
                   reader = Some [0x05, 0x00, 0x07, 0x00], cursor = 4\<rparr>)"
proof -
  have t: "parseRecord \<lparr>buffer = [0x05, 0x00, 0x07, 0x00],
                   reader = Some [0x05, 0x00, 0x07, 0x00], cursor = 0\<rparr>
     = Inr (\<lparr>entryId = 7, payloadSize = 0, timestamp = 0, payloadBytes = [],
              record_val = None\<rparr>,
            \<lparr>buffer = [0x05, 0x00, 0x07, 0x00],
                   reader = Some [0x05, 0x00, 0x07, 0x00], cursor = 4\<rparr>)"
    by code_simp
  have q: "parseRecord \<lparr>buffer = [0x11, 0x00, 0x01, 0x00, 0x05],
                   reader = Some [0x11, 0x00, 0x01, 0x00, 0x05], cursor = 0\<rparr>
     \<noteq> Inl TypeError"
     "parseRecord \<lparr>buffer = [0x11, 0x00, 0x01, 0x00, 0x05],
                   reader = Some [0x11, 0x00, 0x01, 0x00, 0x05], cursor = 0\<rparr>
     \<noteq> Inl RangeError"
    by code_simp+
  show ?thesis
    using zero_widths
      [of 0 "\<lparr>buffer = [0x07], reader = Some [0x07], cursor = 0\<rparr>"
          "\<lparr>buffer = [0x14, 0x00, 0x01, 0x00, 0x05],
             reader = Some [0x14, 0x00, 0x01, 0x00, 0x05], cursor = 0\<rparr>"
          "\<lparr>buffer = [0x11, 0x00, 0x01, 0x00, 0x05],
             reader = Some [0x11, 0x00, 0x01, 0x00, 0x05], cursor = 0\<rparr>"
          "\<lparr>buffer = [0x05, 0x00, 0x07, 0x00],
                   reader = Some [0x05, 0x00, 0x07, 0x00], cursor = 0\<rparr>"
          "\<lparr>entryId = 7, payloadSize = 0, timestamp = 0, payloadBytes = [],
              record_val = None\<rparr>"
          "\<lparr>buffer = [0x05, 0x00, 0x07, 0x00],
                   reader = Some [0x05, 0x00, 0x07, 0x00], cursor = 4\<rparr>"]
      t q
    by (simp add: bitFieldByte_def)
qed

section \<open>Field widths in the record header (C1)\<close>

text \<open>
  C1 does not hold of the code: \<open>parseRecord\<close> hands the three selectors of the bit-field
  byte to the decoders as they are stored, without the \<open>+1\<close>. The record \<open>00 01 00 05\<close>
  has the bit-field byte \<open>0x00\<close>, which announces one byte each for the entry id (1), the
  payload size (0) and the timestamp (5); the code computes an entry-id width of 0 and
  \<open>readVariableLength\<close> throws on it.
\<close>

theorem parseRecord_bitfield_0:
  "parseRecord \<lparr>buffer = [0x00, 0x01, 0x00, 0x05], reader = Some [0x00, 0x01, 0x00, 0x05],
                 cursor = 0\<rparr>
     = Inl (InvalidVariableLength 0)"
  by code_simp

section \<open>The buffer after a record (C5)\<close>

text \<open>
  C5 does not hold of the code: \<open>parseRecord\<close> never calls \<open>sliceBuffer\<close>, which
  \<open>parseHeader\<close> does call once the header is consumed. Below, the twelfth chunk of the
  source carries the last header byte and a record of seven bytes followed by one more
  byte. After the header the buffer holds those eight bytes; after the record it still
  holds all eight, with the cursor at 7 and a single byte unread.
\<close>

theorem parseRecord_keeps_consumed_bytes:
  "parseHeader fromCharCode
     (bytewise (WPILOG @ [0x00, 0x01, 0, 0, 0])
        @ [[0x00, 0x15, 0x00, 0x01, 0x02, 0x07, 0xAA, 0xBB, 0x15]], new_parser)
     = Inr (\<lparr>version = 0x0100, extra = []\<rparr>, [],
            \<lparr>buffer = [0x15, 0x00, 0x01, 0x02, 0x07, 0xAA, 0xBB, 0x15],
              reader = Some [0x15, 0x00, 0x01, 0x02, 0x07, 0xAA, 0xBB, 0x15], cursor = 0\<rparr>)
   \<and> parseRecord \<lparr>buffer = [0x15, 0x00, 0x01, 0x02, 0x07, 0xAA, 0xBB, 0x15],
              reader = Some [0x15, 0x00, 0x01, 0x02, 0x07, 0xAA, 0xBB, 0x15], cursor = 0\<rparr>
     = Inr (\<lparr>entryId = 1, payloadSize = 2, timestamp = 7, payloadBytes = [0xAA, 0xBB],
              record_val = None\<rparr>,
            \<lparr>buffer = [0x15, 0x00, 0x01, 0x02, 0x07, 0xAA, 0xBB, 0x15],
              reader = Some [0x15, 0x00, 0x01, 0x02, 0x07, 0xAA, 0xBB, 0x15], cursor = 7\<rparr>)"
  by code_simp

section \<open>Filling the buffer (C3)\<close>

text \<open>
  C3 does not hold of the code: \<open>readToBuffer(n)\<close> pulls \<open>n\<close> chunks, whatever their sizes,
  and never looks at \<open>done\<close>. Over a source that yields two empty chunks and ends,
  \<open>readToBuffer(2)\<close> returns normally with no unread byte in the buffer.
\<close>

theorem readToBuffer_empty_chunks:
  "readToBuffer 2 ([[], []], new_parser)
     = Inr ([], \<lparr>buffer = [], reader = Some [], cursor = 0\<rparr>)"
  by code_simp

section \<open>Control records (C8)\<close>

text \<open>
  C8 does not hold of the code: the body of \<open>parseControlRecord\<close> is empty. A control
  payload whose first byte is 9 is accepted, alone and inside a record with entry id 0,
  and no control record is produced.
\<close>

theorem parseControlRecord_unknown_tag:
  "parseControlRecord [0x09] 0 0 = Inr None
   \<and> parseRecord \<lparr>buffer = [0x15, 0x00, 0x00, 0x01, 0x00, 0x09],
                   reader = Some [0x15, 0x00, 0x00, 0x01, 0x00, 0x09], cursor = 0\<rparr>
     = Inr (\<lparr>entryId = 0, payloadSize = 1, timestamp = 0, payloadBytes = [0x09],
              record_val = None\<rparr>,
            \<lparr>buffer = [0x15, 0x00, 0x00, 0x01, 0x00, 0x09],
              reader = Some [0x15, 0x00, 0x00, 0x01, 0x00, 0x09], cursor = 6\<rparr>)"
  by code_simp

end
